theory Spec2Isabelle
  imports Main "HOL-Library.Sublist"
begin

section \<open>Python values used by app.py\<close>

text \<open>
  Python strings are modelled as \<open>string\<close>. A record loaded from the JSON file is a
  dictionary from field names to strings, modelled as a map; a subscript \<open>d['k']\<close> on
  a missing key raises KeyError, \<open>d.get('k', '')\<close> does not.
\<close>

datatype py_error = KeyError string | IndexError | StoreError string

type_synonym tag_dict = "string \<rightharpoonup> string"

definition subscript :: "tag_dict \<Rightarrow> string \<Rightarrow> py_error + string" where
  "subscript d k = (case d k of None \<Rightarrow> Inl (KeyError k) | Some v \<Rightarrow> Inr v)"

definition dict_get :: "tag_dict \<Rightarrow> string \<Rightarrow> string \<Rightarrow> string" where
  "dict_get d k dflt = (case d k of None \<Rightarrow> dflt | Some v \<Rightarrow> v)"

text \<open>
  The built-in \<open>hash\<close> of the interpreter is not code of the repository: it is a
  parameter \<open>h\<close> of every function that calls it. It returns a signed machine
  integer, so nothing is assumed about its sign. CPython keys the string hash with a
  seed fixed when the process starts; \<open>py_hash\<close> below reads it from the process.
\<close>

type_synonym pyhash = "string \<Rightarrow> int"

text \<open>\<open>str\<close> of an integer, as an f-string renders it: decimal digits, most
  significant first, no leading zero, a minus sign for a negative number.\<close>

definition digit_char :: "nat \<Rightarrow> char" where
  "digit_char d = ''0123456789'' ! d"

function str_nat :: "nat \<Rightarrow> string" where
  "str_nat n = (if n < 10 then [digit_char n] else str_nat (n div 10) @ [digit_char (n mod 10)])"
  by pat_completeness auto
termination
  by (relation "measure (\<lambda>n. n)") auto

declare str_nat.simps [simp del]

definition str_int :: "int \<Rightarrow> string" where
  "str_int i = (if i < 0 then CHR ''-'' # str_nat (nat (- i)) else str_nat (nat i))"

text \<open>Reading a digit string back, to state that \<open>str_nat\<close> is the decimal
  representation.\<close>

definition digit_val :: "char \<Rightarrow> nat" where
  "digit_val c = of_char c - 48"

definition nat_of_decimal :: "string \<Rightarrow> nat" where
  "nat_of_decimal s = foldl (\<lambda>a c. 10 * a + digit_val c) 0 s"

definition NL :: string where
  "NL = [CHR 0x0A]"

section \<open>Formatting and identifier derivation\<close>

text \<open>
  \<^verbatim>\<open>
  def format_entry(tag_dict):
      return f"""Tag: {tag_dict['tag']}
  Description: {tag_dict['description']}
  Instruction: {tag_dict.get('merge_instruction', '')}
  Category: {tag_dict.get('category', '')}
  """
  \<close>
  The f-string evaluates its fields from left to right, so a dictionary without
  \<open>tag\<close> raises on \<open>tag\<close> before \<open>description\<close> is looked at.
\<close>

definition format_entry :: "tag_dict \<Rightarrow> py_error + string" where
  "format_entry tag_dict =
     (case subscript tag_dict ''tag'' of
        Inl e \<Rightarrow> Inl e
      | Inr tag \<Rightarrow>
         (case subscript tag_dict ''description'' of
            Inl e \<Rightarrow> Inl e
          | Inr description \<Rightarrow>
              Inr (''Tag: '' @ tag @ NL @
                   ''Description: '' @ description @ NL @
                   ''Instruction: '' @ dict_get tag_dict ''merge_instruction'' '''' @ NL @
                   ''Category: '' @ dict_get tag_dict ''category'' '''' @ NL)))"

text \<open>
  \<^verbatim>\<open>
  def get_tag_id(tag_name):
      return f"tag_{hash(tag_name) % (10**8)}"
  \<close>
  Python's \<open>%\<close> on integers takes the sign of the divisor, as \<open>mod\<close> on \<open>int\<close> does.
\<close>

definition get_tag_id :: "pyhash \<Rightarrow> string \<Rightarrow> string" where
  "get_tag_id h tag_name = ''tag_'' @ str_int (h tag_name mod (10 ^ 8))"

text \<open>
  The process state that the module keeps: the seed that keys the interpreter's string
  hash (fixed when the process starts), the record list loaded from the JSON file and
  the identifiers read from the Index Store. \<open>H\<close> is the interpreter's keyed hash: a
  function of the seed and of the string.
\<close>

record process =
  hash_seed :: nat
  loaded_tags :: "tag_dict list"
  seen_ids :: "string set"

definition py_hash :: "(nat \<Rightarrow> pyhash) \<Rightarrow> process \<Rightarrow> pyhash" where
  "py_hash H p = H (hash_seed p)"

section \<open>The Index Store\<close>

text \<open>
  Modelled from the spec: the Index Store client (a chromadb collection) is an external
  library, of which the repository holds only the calls. The spec lists the operations
  consumed, add(ids, documents), update(ids, documents), delete(ids) and
  get(ids?) giving ids and documents, and says that any of them can fail. The store is
  a list of (id, document) entries. Whether a call fails is decided by a schedule of
  faults: each call takes the head of the schedule, \<open>Some e\<close> makes the call raise an
  exception whose text is \<open>e\<close> and leaves the entries as they were, \<open>None\<close> (or an
  empty schedule) lets the call through. Every call is logged, so that which calls a
  function issues can be stated. Deleting an id that is absent is not an error of the
  store, and update and add act on the ids given.
\<close>

datatype call =
  Open
| Get "string list"
| GetAll
| Update "string list" "string list"
| Add "string list" "string list"
| Delete "string list"

record get_result =
  ids :: "string list"
  documents :: "string list"

record chroma =
  entries :: "(string \<times> string) list"
  faults :: "string option list"
  calls :: "call list"

definition next_fault :: "chroma \<Rightarrow> string option" where
  "next_fault db = (case faults db of [] \<Rightarrow> None | f # _ \<Rightarrow> f)"

definition advance :: "call \<Rightarrow> chroma \<Rightarrow> chroma" where
  "advance c db = db\<lparr>faults := tl (faults db), calls := calls db @ [c]\<rparr>"

definition begin_call :: "call \<Rightarrow> chroma \<Rightarrow> string option \<times> chroma" where
  "begin_call c db = (next_fault db, advance c db)"

text \<open>The next \<open>k\<close> calls to the store go through.\<close>

definition reachable :: "nat \<Rightarrow> chroma \<Rightarrow> bool" where
  "reachable k db = list_all (\<lambda>f. f = None) (take k (faults db))"

definition result_of :: "(string \<times> string) list \<Rightarrow> get_result" where
  "result_of es = \<lparr>ids = map fst es, documents = map snd es\<rparr>"

definition stored_ids :: "chroma \<Rightarrow> string set" where
  "stored_ids db = fst ` set (entries db)"

definition get_chroma_db :: "chroma \<Rightarrow> (string + unit) \<times> chroma" where
  "get_chroma_db db =
     (case begin_call Open db of
        (Some e, db') \<Rightarrow> (Inl e, db')
      | (None, db') \<Rightarrow> (Inr (), db'))"

definition chroma_get :: "string list \<Rightarrow> chroma \<Rightarrow> (string + get_result) \<times> chroma" where
  "chroma_get want db =
     (case begin_call (Get want) db of
        (Some e, db') \<Rightarrow> (Inl e, db')
      | (None, db') \<Rightarrow> (Inr (result_of (filter (\<lambda>(i, d). i \<in> set want) (entries db'))), db'))"

definition chroma_get_all :: "chroma \<Rightarrow> (string + get_result) \<times> chroma" where
  "chroma_get_all db =
     (case begin_call GetAll db of
        (Some e, db') \<Rightarrow> (Inl e, db')
      | (None, db') \<Rightarrow> (Inr (result_of (entries db')), db'))"

definition put_doc :: "string \<Rightarrow> string \<Rightarrow> (string \<times> string) list \<Rightarrow> (string \<times> string) list" where
  "put_doc i d es = map (\<lambda>(j, old). if j = i then (j, d) else (j, old)) es"

definition new_doc :: "string \<Rightarrow> string \<Rightarrow> (string \<times> string) list \<Rightarrow> (string \<times> string) list" where
  "new_doc i d es = (if i \<in> fst ` set es then es else es @ [(i, d)])"

definition chroma_update :: "string list \<Rightarrow> string list \<Rightarrow> chroma \<Rightarrow> (string + unit) \<times> chroma" where
  "chroma_update idl ds db =
     (case begin_call (Update idl ds) db of
        (Some e, db') \<Rightarrow> (Inl e, db')
      | (None, db') \<Rightarrow>
          if length idl \<noteq> length ds then (Inl ''ValueError'', db')
          else (Inr (), db'\<lparr>entries := foldl (\<lambda>es (i, d). put_doc i d es) (entries db') (zip idl ds)\<rparr>))"

definition chroma_add :: "string list \<Rightarrow> string list \<Rightarrow> chroma \<Rightarrow> (string + unit) \<times> chroma" where
  "chroma_add ds idl db =
     (case begin_call (Add idl ds) db of
        (Some e, db') \<Rightarrow> (Inl e, db')
      | (None, db') \<Rightarrow>
          if length idl \<noteq> length ds then (Inl ''ValueError'', db')
          else (Inr (), db'\<lparr>entries := foldl (\<lambda>es (i, d). new_doc i d es) (entries db') (zip idl ds)\<rparr>))"

definition chroma_delete :: "string list \<Rightarrow> chroma \<Rightarrow> (string + unit) \<times> chroma" where
  "chroma_delete idl db =
     (case begin_call (Delete idl) db of
        (Some e, db') \<Rightarrow> (Inl e, db')
      | (None, db') \<Rightarrow> (Inr (), db'\<lparr>entries := filter (\<lambda>(i, d). i \<notin> set idl) (entries db')\<rparr>))"

text \<open>
  The entries after an upsert, in the words of the spec: the document text is replaced
  when the id is present, a new entry is inserted when it is absent.
\<close>

definition upsert_entries :: "string \<Rightarrow> string \<Rightarrow> (string \<times> string) list \<Rightarrow> (string \<times> string) list" where
  "upsert_entries i d es = (if i \<in> fst ` set es then put_doc i d es else es @ [(i, d)])"

section \<open>Synchronisation with the Index Store\<close>

definition quoted :: "string \<Rightarrow> string" where
  "quoted s = CHR 0x27 # s @ [CHR 0x27]"

definition updated_msg :: "string \<Rightarrow> string" where
  "updated_msg tag = ''Updated tag '' @ quoted tag @ '' in ChromaDB''"

definition added_msg :: "string \<Rightarrow> string" where
  "added_msg tag = ''Added tag '' @ quoted tag @ '' to ChromaDB''"

definition sync_error_msg :: "string \<Rightarrow> string \<Rightarrow> string" where
  "sync_error_msg tag e = ''Error syncing tag '' @ quoted tag @ '': '' @ e"

definition removed_msg :: "string \<Rightarrow> string" where
  "removed_msg tag = ''Removed tag '' @ quoted tag @ '' from ChromaDB''"

definition remove_error_msg :: "string \<Rightarrow> string \<Rightarrow> string" where
  "remove_error_msg tag e = ''Error removing tag '' @ quoted tag @ '': '' @ e"

text \<open>
  \<^verbatim>\<open>
  def sync_tag_to_chroma(tag_data, db):
      tag_id = get_tag_id(tag_data['tag'])
      doc_str = format_entry(tag_data)
      try:
          existing = db.get(ids=[tag_id])
          if existing['ids']:
              db.update(ids=[tag_id], documents=[doc_str])
              return f"Updated tag '{tag_data['tag']}' in ChromaDB"
          else:
              db.add(documents=[doc_str], ids=[tag_id])
              return f"Added tag '{tag_data['tag']}' to ChromaDB"
      except Exception as e:
          return f"Error syncing tag '{tag_data['tag']}': {str(e)}"
  \<close>
  The first two lines stand before the \<open>try\<close>: a KeyError raised there leaves the
  function. The result is the exception or the returned string, with the store after
  the call.
\<close>

definition sync_tag_to_chroma :: "pyhash \<Rightarrow> tag_dict \<Rightarrow> chroma \<Rightarrow> (py_error + string) \<times> chroma" where
  "sync_tag_to_chroma h tag_data db =
     (case subscript tag_data ''tag'' of
        Inl e \<Rightarrow> (Inl e, db)
      | Inr tag \<Rightarrow>
         (let tag_id = get_tag_id h tag in
          case format_entry tag_data of
            Inl e \<Rightarrow> (Inl e, db)
          | Inr doc_str \<Rightarrow>
             (case chroma_get [tag_id] db of
                (Inl e, db1) \<Rightarrow> (Inr (sync_error_msg tag e), db1)
              | (Inr existing, db1) \<Rightarrow>
                  if ids existing \<noteq> [] then
                    (case chroma_update [tag_id] [doc_str] db1 of
                       (Inl e, db2) \<Rightarrow> (Inr (sync_error_msg tag e), db2)
                     | (Inr u, db2) \<Rightarrow> (Inr (updated_msg tag), db2))
                  else
                    (case chroma_add [doc_str] [tag_id] db1 of
                       (Inl e, db2) \<Rightarrow> (Inr (sync_error_msg tag e), db2)
                     | (Inr u, db2) \<Rightarrow> (Inr (added_msg tag), db2)))))"

text \<open>
  \<^verbatim>\<open>
  def remove_tag_from_chroma(tag_name, db):
      tag_id = get_tag_id(tag_name)
      try:
          db.delete(ids=[tag_id])
          return f"Removed tag '{tag_name}' from ChromaDB"
      except Exception as e:
          return f"Error removing tag '{tag_name}': {str(e)}"
  \<close>
  For a string \<open>tag_name\<close> nothing outside the \<open>try\<close> can raise, so the function
  always returns a string.
\<close>

definition remove_tag_from_chroma :: "pyhash \<Rightarrow> string \<Rightarrow> chroma \<Rightarrow> string \<times> chroma" where
  "remove_tag_from_chroma h tag_name db =
     (let tag_id = get_tag_id h tag_name in
      case chroma_delete [tag_id] db of
        (Inl e, db1) \<Rightarrow> (remove_error_msg tag_name e, db1)
      | (Inr u, db1) \<Rightarrow> (removed_msg tag_name, db1))"

text \<open>
  \<^verbatim>\<open>
  def check_sync_status(tags_data, chroma_ids):
      sync_status = {}
      for tag in tags_data:
          tag_id = get_tag_id(tag['tag'])
          sync_status[tag['tag']] = tag_id in chroma_ids
      return sync_status
  \<close>
\<close>

fun check_sync_loop ::
  "pyhash \<Rightarrow> tag_dict list \<Rightarrow> string set \<Rightarrow> (string \<rightharpoonup> bool) \<Rightarrow> py_error + (string \<rightharpoonup> bool)" where
  "check_sync_loop h [] chroma_ids sync_status = Inr sync_status"
| "check_sync_loop h (tag # rest) chroma_ids sync_status =
     (case subscript tag ''tag'' of
        Inl e \<Rightarrow> Inl e
      | Inr t \<Rightarrow>
         (let tag_id = get_tag_id h t in
          check_sync_loop h rest chroma_ids (sync_status(t \<mapsto> tag_id \<in> chroma_ids))))"

definition check_sync_status :: "pyhash \<Rightarrow> tag_dict list \<Rightarrow> string set \<Rightarrow> py_error + (string \<rightharpoonup> bool)" where
  "check_sync_status h tags_data chroma_ids = check_sync_loop h tags_data chroma_ids Map.empty"

section \<open>Orphan reconciliation\<close>

text \<open>
  \<^verbatim>\<open>
  def clean_orphaned_chroma_entries(tags_data):
      if not db:
          return "ChromaDB not available"
      expected_ids = {get_tag_id(tag['tag']) for tag in tags_data}
      all_data = db.get()
      existing_ids = set(all_data['ids'])
      orphaned_ids = existing_ids - expected_ids
      if orphaned_ids:
          try:
              db.delete(ids=list(orphaned_ids))
              return f"Removed {len(orphaned_ids)} orphaned entries from ChromaDB"
          except Exception as e:
              return f"Error removing orphaned entries: {e}"
      else:
          return "No orphaned entries found"
  \<close>
  \<open>db\<close> is the module's global: the collection, or None when the store could not be
  opened. The set comprehension and \<open>db.get()\<close> stand outside the \<open>try\<close>. Python
  fixes no order for \<open>list(orphaned_ids)\<close>; the model lists the ids in the order of
  the store, without repetition.
\<close>

fun expected_ids :: "pyhash \<Rightarrow> tag_dict list \<Rightarrow> py_error + string set" where
  "expected_ids h [] = Inr {}"
| "expected_ids h (tag # rest) =
     (case subscript tag ''tag'' of
        Inl e \<Rightarrow> Inl e
      | Inr t \<Rightarrow>
         (case expected_ids h rest of
            Inl e \<Rightarrow> Inl e
          | Inr acc \<Rightarrow> Inr (insert (get_tag_id h t) acc)))"

definition removed_orphans_msg :: "nat \<Rightarrow> string" where
  "removed_orphans_msg n = ''Removed '' @ str_int (int n) @ '' orphaned entries from ChromaDB''"

definition clean_orphaned_chroma_entries ::
  "pyhash \<Rightarrow> chroma option \<Rightarrow> tag_dict list \<Rightarrow> (py_error + string) \<times> chroma option" where
  "clean_orphaned_chroma_entries h db tags_data =
     (case db of
        None \<Rightarrow> (Inr ''ChromaDB not available'', None)
      | Some store \<Rightarrow>
         (case expected_ids h tags_data of
            Inl e \<Rightarrow> (Inl e, Some store)
          | Inr expected \<Rightarrow>
             (case chroma_get_all store of
                (Inl e, s1) \<Rightarrow> (Inl (StoreError e), Some s1)
              | (Inr all_data, s1) \<Rightarrow>
                 (let existing_ids = remdups (ids all_data);
                      orphaned_ids = filter (\<lambda>i. i \<notin> expected) existing_ids
                  in if orphaned_ids \<noteq> [] then
                       (case chroma_delete orphaned_ids s1 of
                          (Inl e, s2) \<Rightarrow> (Inr (''Error removing orphaned entries: '' @ e), Some s2)
                        | (Inr u, s2) \<Rightarrow> (Inr (removed_orphans_msg (length orphaned_ids)), Some s2))
                     else (Inr ''No orphaned entries found'', Some s1)))))"

section \<open>Content search\<close>

text \<open>
  \<^verbatim>\<open>
  def get_all_chroma_documents():
      try:
          db = get_chroma_db()
          all_data = db.get(include=['documents'])
          return all_data
      except Exception as e:
          st.error(f"Error getting ChromaDB documents: {e}")
          return None

  def search_tag_in_chroma(tag_name):
      try:
          all_data = get_all_chroma_documents()
          if not all_data:
              return []
          matches = []
          for i, doc in enumerate(all_data['documents']):
              if tag_name.lower() in doc.lower():
                  matches.append({
                      'id': all_data['ids'][i],
                      'document': doc,
                      'exact_match': f"Tag: {tag_name}" in doc
                  })
          return matches
      except Exception as e:
          st.error(f"Error searching in ChromaDB: {e}")
          return []
  \<close>
  \<open>str.lower\<close> is a method of the interpreter: the parameter \<open>lower\<close>. The operator
  \<open>in\<close> on two strings is the test for a contiguous substring, \<open>sublist\<close>.
\<close>

record match =
  match_id :: string
  document :: string
  exact_match :: bool

text \<open>The dictionary appended for a matching entry of the store.\<close>

definition as_match :: "string \<Rightarrow> string \<times> string \<Rightarrow> match" where
  "as_match tag_name e =
     \<lparr>match_id = fst e, document = snd e, exact_match = sublist (''Tag: '' @ tag_name) (snd e)\<rparr>"

text \<open>
  In the words of the spec: the document has the tag header formatted for the query,
  that is, its first line is \<open>Tag: \<close> followed by the query and nothing more.
\<close>

definition has_tag_header :: "string \<Rightarrow> string \<Rightarrow> bool" where
  "has_tag_header tag_name doc = (takeWhile (\<lambda>c. c \<noteq> CHR 0x0A) doc = ''Tag: '' @ tag_name)"

definition get_all_chroma_documents :: "chroma \<Rightarrow> get_result option \<times> chroma" where
  "get_all_chroma_documents store =
     (case get_chroma_db store of
        (Inl e, s1) \<Rightarrow> (None, s1)
      | (Inr u, s1) \<Rightarrow>
         (case chroma_get_all s1 of
            (Inl e, s2) \<Rightarrow> (None, s2)
          | (Inr all_data, s2) \<Rightarrow> (Some all_data, s2)))"

fun search_loop ::
  "(string \<Rightarrow> string) \<Rightarrow> string \<Rightarrow> get_result \<Rightarrow> nat \<Rightarrow> string list \<Rightarrow> match list \<Rightarrow> py_error + match list" where
  "search_loop lower tag_name all_data i [] matches = Inr matches"
| "search_loop lower tag_name all_data i (doc # docs) matches =
     (if sublist (lower tag_name) (lower doc) then
        (if i < length (ids all_data) then
           search_loop lower tag_name all_data (Suc i) docs
             (matches @ [\<lparr>match_id = ids all_data ! i, document = doc,
                          exact_match = sublist (''Tag: '' @ tag_name) doc\<rparr>])
         else Inl IndexError)
      else search_loop lower tag_name all_data (Suc i) docs matches)"

definition search_tag_in_chroma :: "(string \<Rightarrow> string) \<Rightarrow> string \<Rightarrow> chroma \<Rightarrow> match list \<times> chroma" where
  "search_tag_in_chroma lower tag_name store =
     (case get_all_chroma_documents store of
        (None, s1) \<Rightarrow> ([], s1)
      | (Some all_data, s1) \<Rightarrow>
         (case search_loop lower tag_name all_data 0 (documents all_data) [] of
            Inl e \<Rightarrow> ([], s1)
          | Inr matches \<Rightarrow> (matches, s1)))"

section \<open>Saving a record\<close>

text \<open>
  The save branch of the form handler:
  \<^verbatim>\<open>
  if submitted and current_tag:
      new_entry = {
          "tag": current_tag,
          "description": description.strip(),
          "merge_instruction": merge_instruction.strip(),
          "category": category.strip()
      }
      tags_data = [t for t in tags_data if t["tag"] != current_tag]
      tags_data.append(new_entry)
      save_tags(tags_data)
  \<close>
  \<open>str.strip\<close> is the parameter \<open>strip\<close>. The function gives the list handed to
  \<open>save_tags\<close>, or the list as it was when the branch is not taken.
\<close>

fun without_tag :: "string \<Rightarrow> tag_dict list \<Rightarrow> py_error + tag_dict list" where
  "without_tag current_tag [] = Inr []"
| "without_tag current_tag (t # rest) =
     (case subscript t ''tag'' of
        Inl e \<Rightarrow> Inl e
      | Inr v \<Rightarrow>
         (case without_tag current_tag rest of
            Inl e \<Rightarrow> Inl e
          | Inr kept \<Rightarrow> Inr (if v \<noteq> current_tag then t # kept else kept)))"

definition new_entry :: "(string \<Rightarrow> string) \<Rightarrow> string \<Rightarrow> string \<Rightarrow> string \<Rightarrow> string \<Rightarrow> tag_dict" where
  "new_entry strip current_tag description merge_instruction category =
     [''tag'' \<mapsto> current_tag,
      ''description'' \<mapsto> strip description,
      ''merge_instruction'' \<mapsto> strip merge_instruction,
      ''category'' \<mapsto> strip category]"

definition save_handler ::
  "(string \<Rightarrow> string) \<Rightarrow> bool \<Rightarrow> string \<Rightarrow> string \<Rightarrow> string \<Rightarrow> string \<Rightarrow> tag_dict list
     \<Rightarrow> py_error + tag_dict list" where
  "save_handler strip submitted current_tag description merge_instruction category tags_data =
     (if submitted \<and> current_tag \<noteq> [] then
        (case without_tag current_tag tags_data of
           Inl e \<Rightarrow> Inl e
         | Inr kept \<Rightarrow> Inr (kept @ [new_entry strip current_tag description merge_instruction category]))
      else Inr tags_data)"

text \<open>A tag record has the two fields that the code reads by subscript.\<close>

definition has_tag :: "tag_dict \<Rightarrow> bool" where
  "has_tag d = (d ''tag'' \<noteq> None)"

definition is_tag_record :: "tag_dict \<Rightarrow> bool" where
  "is_tag_record d = (d ''tag'' \<noteq> None \<and> d ''description'' \<noteq> None)"

definition tag_names :: "tag_dict list \<Rightarrow> string set" where
  "tag_names tags_data = set (List.map_filter (\<lambda>d. d ''tag'') tags_data)"

section \<open>Decimal rendering\<close>

lemma digit_char_in: "d < 10 \<Longrightarrow> digit_char d \<in> set ''0123456789''"
proof -
  assume "d < 10"
  then have "d \<in> {0,1,2,3,4,5,6,7,8,9}" by auto
  then show ?thesis by (auto simp: digit_char_def)
qed

lemma digit_val_digit_char: "d < 10 \<Longrightarrow> digit_val (digit_char d) = d"
proof -
  assume "d < 10"
  then have "d \<in> {0,1,2,3,4,5,6,7,8,9}" by auto
  then show ?thesis by (auto simp: digit_val_def digit_char_def)
qed

lemma nat_of_decimal_snoc: "nat_of_decimal (s @ [c]) = 10 * nat_of_decimal s + digit_val c"
  by (simp add: nat_of_decimal_def)

lemma nat_of_decimal_str_nat: "nat_of_decimal (str_nat n) = n"
proof (induction n rule: str_nat.induct)
  case (1 n)
  show ?case
  proof (cases "n < 10")
    case True
    then show ?thesis
      by (subst str_nat.simps) (simp add: nat_of_decimal_def digit_val_digit_char)
  next
    case False
    then show ?thesis
      using 1 by (subst str_nat.simps) (simp add: nat_of_decimal_snoc digit_val_digit_char)
  qed
qed

lemma str_nat_digits: "set (str_nat n) \<subseteq> set ''0123456789''"
proof (induction n rule: str_nat.induct)
  case (1 n)
  show ?case
  proof (cases "n < 10")
    case True
    then show ?thesis using digit_char_in[of n] by (subst str_nat.simps) simp
  next
    case False
    then show ?thesis using 1 digit_char_in[of "n mod 10"] by (subst str_nat.simps) simp
  qed
qed

lemma str_int_nonneg: "0 \<le> i \<Longrightarrow> str_int i = str_nat (nat i)"
  by (simp add: str_int_def)

lemma get_tag_id_len1: "get_tag_id (\<lambda>s. int (length s)) ''a'' = ''tag_1''"
  by (simp add: get_tag_id_def str_int_def str_nat.simps digit_char_def)

lemma get_tag_id_len2: "get_tag_id (\<lambda>s. int (length s)) ''bb'' = ''tag_2''"
  by (simp add: get_tag_id_def str_int_def str_nat.simps digit_char_def)

section \<open>Identifier derivation\<close>

text \<open>
  C10. For every hash function and every string, the empty one included, the
  identifier is \<open>tag_\<close> followed by the decimal digits of a number below \<open>10^8\<close>,
  which is the hash reduced modulo \<open>10^8\<close> (never negative, whatever the sign of the
  hash). The digits read back as that number. The identifiers of all strings together
  are at most \<open>10^8\<close>.
\<close>

theorem get_tag_id_range:
  "(\<exists>n::nat. n < 10 ^ 8 \<and> int n = h tag_name mod 10 ^ 8
       \<and> get_tag_id h tag_name = ''tag_'' @ str_nat n
       \<and> nat_of_decimal (str_nat n) = n
       \<and> set (str_nat n) \<subseteq> set ''0123456789'')
   \<and> finite (range (get_tag_id h)) \<and> card (range (get_tag_id h)) \<le> 10 ^ 8"
proof -
  let ?f = "\<lambda>n::nat. ''tag_'' @ str_nat n"
  have form: "\<exists>n::nat. n < 10 ^ 8 \<and> int n = h s mod 10 ^ 8 \<and> get_tag_id h s = ?f n" for s
  proof -
    let ?m = "h s mod (10 ^ 8)"
    have "0 \<le> ?m" "?m < 10 ^ 8" by simp_all
    then have "nat ?m < 10 ^ 8" "int (nat ?m) = ?m" "get_tag_id h s = ?f (nat ?m)"
      by (simp_all add: get_tag_id_def str_int_nonneg)
    then show ?thesis by blast
  qed
  have sub: "range (get_tag_id h) \<subseteq> ?f ` {..< 10 ^ 8}"
    using form by (auto simp: image_iff)
  have fin: "finite (range (get_tag_id h))"
    using sub by (rule finite_subset) simp
  have "card (range (get_tag_id h)) \<le> card (?f ` {..< (10::nat) ^ 8})"
    using sub by (intro card_mono) simp_all
  also have "\<dots> \<le> card {..< (10::nat) ^ 8}" by (rule card_image_le) simp
  finally have c: "card (range (get_tag_id h)) \<le> 10 ^ 8" by simp
  from form[of tag_name] obtain n where
    "n < 10 ^ 8" "int n = h tag_name mod 10 ^ 8" "get_tag_id h tag_name = ?f n" by blast
  then show ?thesis using fin c nat_of_decimal_str_nat str_nat_digits by blast
qed

text \<open>
  At a negative hash the reduction is the one of Python: \<open>-1 % 10**8\<close> is \<open>99999999\<close>.
\<close>

lemma get_tag_id_negative_hash: "get_tag_id (\<lambda>s. - 1) '''' = ''tag_99999999''"
  by (simp add: get_tag_id_def str_int_def str_nat.simps digit_char_def)

lemma str_nat_inj: "str_nat a = str_nat b \<Longrightarrow> a = b"
proof -
  assume "str_nat a = str_nat b"
  then have "nat_of_decimal (str_nat a) = nat_of_decimal (str_nat b)" by (rule arg_cong)
  then show "a = b" by (simp only: nat_of_decimal_str_nat)
qed

lemma get_tag_id_eq_iff:
  "get_tag_id h s = get_tag_id h' s' \<longleftrightarrow> h s mod 10 ^ 8 = h' s' mod 10 ^ 8"
proof
  assume "get_tag_id h s = get_tag_id h' s'"
  then have "str_nat (nat (h s mod 10 ^ 8)) = str_nat (nat (h' s' mod 10 ^ 8))"
    by (simp add: get_tag_id_def str_int_nonneg)
  then have "nat (h s mod 10 ^ 8) = nat (h' s' mod 10 ^ 8)" by (rule str_nat_inj)
  then show "h s mod 10 ^ 8 = h' s' mod 10 ^ 8" by simp
next
  assume "h s mod 10 ^ 8 = h' s' mod 10 ^ 8"
  then show "get_tag_id h s = get_tag_id h' s'" by (simp add: get_tag_id_def)
qed

text \<open>
  C4. The identifier of a tag string is decided by the hash of the string reduced
  modulo \<open>10^8\<close> and by nothing else: two processes derive the same identifier for a
  string if and only if their keyed hashes of it agree modulo \<open>10^8\<close>. The hash is
  keyed by the seed of the process, which \<open>app.py\<close> does not pin, so the identifier
  is the same across runs with the same seed and depends on the state of the process
  through the seed: it is not a function of the content of the string alone.
\<close>

theorem get_tag_id_follows_seed:
  "get_tag_id (py_hash H p) tag_name = get_tag_id (py_hash H q) tag_name
     \<longleftrightarrow> H (hash_seed p) tag_name mod 10 ^ 8 = H (hash_seed q) tag_name mod 10 ^ 8"
  by (simp add: get_tag_id_eq_iff py_hash_def)

text \<open>
  Two runs with different seeds, under a keyed hash that follows its seed: the same
  tag gets two identifiers.
\<close>

theorem get_tag_id_unstable_across_runs:
  "get_tag_id (py_hash (\<lambda>seed s. int seed + int (length s))
       \<lparr>hash_seed = 1, loaded_tags = [], seen_ids = {}\<rparr>) ''foo'' = ''tag_4''
   \<and> get_tag_id (py_hash (\<lambda>seed s. int seed + int (length s))
       \<lparr>hash_seed = 2, loaded_tags = [], seen_ids = {}\<rparr>) ''foo'' = ''tag_5''
   \<and> get_tag_id (py_hash (\<lambda>seed s. int seed + int (length s))
       \<lparr>hash_seed = 1, loaded_tags = [], seen_ids = {}\<rparr>) ''foo''
     \<noteq> get_tag_id (py_hash (\<lambda>seed s. int seed + int (length s))
       \<lparr>hash_seed = 2, loaded_tags = [], seen_ids = {}\<rparr>) ''foo''"
proof -
  have a: "get_tag_id (py_hash (\<lambda>seed s. int seed + int (length s))
       \<lparr>hash_seed = 1, loaded_tags = [], seen_ids = {}\<rparr>) ''foo'' = ''tag_4''"
    by (simp add: py_hash_def get_tag_id_def str_int_def str_nat.simps digit_char_def)
  have b: "get_tag_id (py_hash (\<lambda>seed s. int seed + int (length s))
       \<lparr>hash_seed = 2, loaded_tags = [], seen_ids = {}\<rparr>) ''foo'' = ''tag_5''"
    by (simp add: py_hash_def get_tag_id_def str_int_def str_nat.simps digit_char_def)
  have c: "get_tag_id (py_hash (\<lambda>seed s. int seed + int (length s))
       \<lparr>hash_seed = 1, loaded_tags = [], seen_ids = {}\<rparr>) ''foo''
     \<noteq> get_tag_id (py_hash (\<lambda>seed s. int seed + int (length s))
       \<lparr>hash_seed = 2, loaded_tags = [], seen_ids = {}\<rparr>) ''foo''"
    using get_tag_id_follows_seed [of "\<lambda>seed s. int seed + int (length s)"
        "\<lparr>hash_seed = 1, loaded_tags = [], seen_ids = {}\<rparr>" "''foo''"
        "\<lparr>hash_seed = 2, loaded_tags = [], seen_ids = {}\<rparr>"]
    by simp
  from a b c show ?thesis by blast
qed

section \<open>Document formatting\<close>

text \<open>
  C8, as stated, at a record without \<open>description\<close>: the subscript raises KeyError,
  the field is not rendered as the empty string.
\<close>

theorem format_entry_missing_description:
  "format_entry [''tag'' \<mapsto> ''foo''] = Inl (KeyError ''description'')"
  by (simp add: format_entry_def subscript_def)

text \<open>
  C8, amended. For every record dictionary that has \<open>tag\<close> and \<open>description\<close>,
  \<open>format_entry\<close> raises nothing, and a missing \<open>merge_instruction\<close> or \<open>category\<close>
  is rendered as the empty string: the document is the one of the record with that
  field set to the empty string.
\<close>

theorem format_entry_optional_fields:
  assumes "is_tag_record d"
  shows "format_entry d =
           Inr (''Tag: '' @ the (d ''tag'') @ NL @
                ''Description: '' @ the (d ''description'') @ NL @
                ''Instruction: '' @ (case d ''merge_instruction'' of None \<Rightarrow> '''' | Some v \<Rightarrow> v) @ NL @
                ''Category: '' @ (case d ''category'' of None \<Rightarrow> '''' | Some v \<Rightarrow> v) @ NL)
     \<and> format_entry (d(''merge_instruction'' := None)) = format_entry (d(''merge_instruction'' \<mapsto> ''''))
     \<and> format_entry (d(''category'' := None)) = format_entry (d(''category'' \<mapsto> ''''))"
  using assms by (auto simp: is_tag_record_def format_entry_def subscript_def dict_get_def)

theorem format_entry_optional_fields_witness:
  "is_tag_record [''tag'' \<mapsto> ''foo'', ''description'' \<mapsto> ''d'']
   \<and> format_entry [''tag'' \<mapsto> ''foo'', ''description'' \<mapsto> ''d''] =
       Inr (''Tag: foo'' @ NL @ ''Description: d'' @ NL @ ''Instruction: '' @ NL @ ''Category: '' @ NL)
   \<and> format_entry ([''tag'' \<mapsto> ''foo'', ''description'' \<mapsto> ''d''](''category'' := None))
       = format_entry ([''tag'' \<mapsto> ''foo'', ''description'' \<mapsto> ''d''](''category'' \<mapsto> ''''))"
proof -
  have h: "is_tag_record [''tag'' \<mapsto> ''foo'', ''description'' \<mapsto> ''d'']"
    by (simp add: is_tag_record_def)
  have "format_entry [''tag'' \<mapsto> ''foo'', ''description'' \<mapsto> ''d''] =
      Inr (''Tag: foo'' @ NL @ ''Description: d'' @ NL @ ''Instruction: '' @ NL @ ''Category: '' @ NL)"
    by (simp add: format_entry_def subscript_def dict_get_def)
  with h format_entry_optional_fields [OF h] show ?thesis by blast
qed

text \<open>The two fields read by subscript are the only way for \<open>format_entry\<close> to raise.\<close>

lemma format_entry_raises: "\<not> is_tag_record d \<Longrightarrow> \<exists>k. format_entry d = Inl (KeyError k)"
  by (auto simp: is_tag_record_def format_entry_def subscript_def split: option.splits)

section \<open>Sync status\<close>

lemma tag_names_Nil: "tag_names [] = {}"
  by (simp add: tag_names_def List.map_filter_simps)

lemma tag_names_Cons:
  "tag_names (d # ds) = (case d ''tag'' of None \<Rightarrow> tag_names ds | Some t \<Rightarrow> insert t (tag_names ds))"
  by (simp add: tag_names_def List.map_filter_simps split: option.splits)

lemma check_sync_loop_eq:
  "list_all has_tag tags_data \<Longrightarrow>
   check_sync_loop h tags_data chroma_ids m =
     Inr (\<lambda>t. if t \<in> tag_names tags_data then Some (get_tag_id h t \<in> chroma_ids) else m t)"
proof (induction tags_data arbitrary: m)
  case Nil
  then show ?case by (simp add: tag_names_Nil)
next
  case (Cons d ds)
  from Cons.prems have hd: "has_tag d" and ds: "list_all has_tag ds" by simp_all
  from hd obtain t where t: "d ''tag'' = Some t" by (auto simp: has_tag_def)
  show ?case
    using t Cons.IH[OF ds] by (auto simp: subscript_def tag_names_Cons fun_eq_iff)
qed

text \<open>
  C2. For every list of records that have a \<open>tag\<close> and every set of existing ids,
  \<open>check_sync_status\<close> returns a mapping (it raises nothing) whose keys are exactly
  the tags of the list, one boolean each, true if and only if the identifier derived
  from the tag is in the set. The function takes no store and returns none: it has no
  effect on the Record Store or the Index Store.
\<close>

theorem check_sync_status_correct:
  "list_all has_tag tags_data \<Longrightarrow>
   check_sync_status h tags_data chroma_ids =
     Inr (\<lambda>t. if t \<in> tag_names tags_data then Some (get_tag_id h t \<in> chroma_ids) else None)"
  by (simp add: check_sync_status_def check_sync_loop_eq)

theorem check_sync_status_correct_witness:
  "list_all has_tag [[''tag'' \<mapsto> ''a''], [''tag'' \<mapsto> ''bb'']]
   \<and> (case check_sync_status (\<lambda>s. int (length s)) [[''tag'' \<mapsto> ''a''], [''tag'' \<mapsto> ''bb'']] {''tag_1''} of
         Inl e \<Rightarrow> False
       | Inr m \<Rightarrow> m ''a'' = Some True \<and> m ''bb'' = Some False \<and> m ''c'' = None)"
proof -
  have h: "list_all has_tag [[''tag'' \<mapsto> ''a''], [''tag'' \<mapsto> ''bb'']]"
    by (simp add: has_tag_def)
  have n: "tag_names [[''tag'' \<mapsto> ''a''], [''tag'' \<mapsto> ''bb'']] = {''a'', ''bb''}"
    by (simp add: tag_names_def List.map_filter_simps)
  show ?thesis
    using h check_sync_status_correct [OF h, of "\<lambda>s. int (length s)" "{''tag_1''}"]
    by (simp add: n get_tag_id_len1 get_tag_id_len2)
qed

section \<open>Saving a record\<close>

lemma without_tag_eq:
  "list_all has_tag tags_data \<Longrightarrow>
   without_tag current_tag tags_data = Inr (filter (\<lambda>t. t ''tag'' \<noteq> Some current_tag) tags_data)"
  by (induction tags_data) (auto simp: has_tag_def subscript_def)

text \<open>
  C9. For every prior list of records that have a \<open>tag\<close> and every record saved
  under a tag \<open>t\<close> (the handler saves only under a non-empty tag), the list handed to
  the Record Store is the prior list without the records whose tag is \<open>t\<close>, the
  others unchanged and in their order, followed by the new record. The new record
  holds the tag and the stripped values of the form and nothing of a prior record.
\<close>

theorem save_handler_delete_then_append:
  "list_all has_tag tags_data \<Longrightarrow> current_tag \<noteq> [] \<Longrightarrow>
   save_handler strip True current_tag description merge_instruction category tags_data =
     Inr (filter (\<lambda>t. t ''tag'' \<noteq> Some current_tag) tags_data
          @ [[''tag'' \<mapsto> current_tag, ''description'' \<mapsto> strip description,
              ''merge_instruction'' \<mapsto> strip merge_instruction, ''category'' \<mapsto> strip category]])"
  by (simp add: save_handler_def without_tag_eq new_entry_def)

theorem save_handler_delete_then_append_witness:
  "list_all has_tag [[''tag'' \<mapsto> ''a'', ''description'' \<mapsto> ''old''], [''tag'' \<mapsto> ''b''], [''tag'' \<mapsto> ''a'']]
   \<and> ''a'' \<noteq> []
   \<and> save_handler (\<lambda>s. s) True ''a'' ''new'' '''' ''''
        [[''tag'' \<mapsto> ''a'', ''description'' \<mapsto> ''old''], [''tag'' \<mapsto> ''b''], [''tag'' \<mapsto> ''a'']]
      = Inr [[''tag'' \<mapsto> ''b''],
             [''tag'' \<mapsto> ''a'', ''description'' \<mapsto> ''new'', ''merge_instruction'' \<mapsto> '''', ''category'' \<mapsto> '''']]"
proof -
  have h: "list_all has_tag [[''tag'' \<mapsto> ''a'', ''description'' \<mapsto> ''old''], [''tag'' \<mapsto> ''b''], [''tag'' \<mapsto> ''a'']]"
    by (simp add: has_tag_def)
  have ne: "''a'' \<noteq> []" by simp
  show ?thesis
    using h save_handler_delete_then_append [OF h ne, of "\<lambda>s. s" "''new''" "''''" "''''"]
    by simp
qed

section \<open>Store calls\<close>

lemma entries_advance [simp]: "entries (advance c db) = entries db"
  by (simp add: advance_def)

lemma calls_advance [simp]: "calls (advance c db) = calls db @ [c]"
  by (simp add: advance_def)

lemma faults_advance [simp]: "faults (advance c db) = tl (faults db)"
  by (simp add: advance_def)

lemma stored_ids_advance [simp]: "stored_ids (advance c db) = stored_ids db"
  by (simp add: stored_ids_def)

lemma chroma_get_ok:
  "next_fault db = None \<Longrightarrow>
   chroma_get want db = (Inr (result_of (filter (\<lambda>(i, d). i \<in> set want) (entries db))), advance (Get want) db)"
  by (simp add: chroma_get_def begin_call_def)

lemma chroma_get_fail:
  "next_fault db = Some e \<Longrightarrow> chroma_get want db = (Inl e, advance (Get want) db)"
  by (simp add: chroma_get_def begin_call_def)

lemma chroma_get_all_ok:
  "next_fault db = None \<Longrightarrow> chroma_get_all db = (Inr (result_of (entries db)), advance GetAll db)"
  by (simp add: chroma_get_all_def begin_call_def)

lemma chroma_update_ok:
  "next_fault db = None \<Longrightarrow>
   chroma_update [i] [d] db = (Inr (), (advance (Update [i] [d]) db)\<lparr>entries := put_doc i d (entries db)\<rparr>)"
  by (simp add: chroma_update_def begin_call_def)

lemma chroma_update_fail:
  "next_fault db = Some e \<Longrightarrow> chroma_update idl ds db = (Inl e, advance (Update idl ds) db)"
  by (simp add: chroma_update_def begin_call_def)

lemma chroma_add_ok:
  "next_fault db = None \<Longrightarrow>
   chroma_add [d] [i] db = (Inr (), (advance (Add [i] [d]) db)\<lparr>entries := new_doc i d (entries db)\<rparr>)"
  by (simp add: chroma_add_def begin_call_def)

lemma chroma_add_fail:
  "next_fault db = Some e \<Longrightarrow> chroma_add ds idl db = (Inl e, advance (Add idl ds) db)"
  by (simp add: chroma_add_def begin_call_def)

lemma chroma_delete_ok:
  "next_fault db = None \<Longrightarrow>
   chroma_delete idl db =
     (Inr (), (advance (Delete idl) db)\<lparr>entries := filter (\<lambda>(i, d). i \<notin> set idl) (entries db)\<rparr>)"
  by (simp add: chroma_delete_def begin_call_def)

lemma chroma_delete_fail:
  "next_fault db = Some e \<Longrightarrow> chroma_delete idl db = (Inl e, advance (Delete idl) db)"
  by (simp add: chroma_delete_def begin_call_def)

lemma get_chroma_db_ok:
  "next_fault db = None \<Longrightarrow> get_chroma_db db = (Inr (), advance Open db)"
  by (simp add: get_chroma_db_def begin_call_def)

lemma ids_result_of [simp]: "ids (result_of es) = map fst es"
  by (simp add: result_of_def)

lemma documents_result_of [simp]: "documents (result_of es) = map snd es"
  by (simp add: result_of_def)

lemma found_iff:
  "filter (\<lambda>(i, d). i \<in> set [x]) es \<noteq> [] \<longleftrightarrow> x \<in> fst ` set es"
  by (induction es) auto

lemma next_fault_upd [simp]: "next_fault (db\<lparr>entries := es\<rparr>) = next_fault db"
  by (simp add: next_fault_def)

lemma sync_get_fault:
  assumes "tag_data ''tag'' = Some tag" "format_entry tag_data = Inr doc"
    and "next_fault db = Some e"
  shows "sync_tag_to_chroma h tag_data db =
           (Inr (sync_error_msg tag e), advance (Get [get_tag_id h tag]) db)"
  using assms by (simp add: sync_tag_to_chroma_def subscript_def chroma_get_fail)

lemma sync_present:
  assumes "tag_data ''tag'' = Some tag" "format_entry tag_data = Inr doc"
    and "next_fault db = None" "get_tag_id h tag \<in> stored_ids db"
  shows "sync_tag_to_chroma h tag_data db =
           (case chroma_update [get_tag_id h tag] [doc] (advance (Get [get_tag_id h tag]) db) of
              (Inl e, db2) \<Rightarrow> (Inr (sync_error_msg tag e), db2)
            | (Inr u, db2) \<Rightarrow> (Inr (updated_msg tag), db2))"
  using assms found_iff[of "get_tag_id h tag" "entries db"]
  by (simp add: sync_tag_to_chroma_def subscript_def chroma_get_ok stored_ids_def Let_def)

lemma sync_absent:
  assumes "tag_data ''tag'' = Some tag" "format_entry tag_data = Inr doc"
    and "next_fault db = None" "get_tag_id h tag \<notin> stored_ids db"
  shows "sync_tag_to_chroma h tag_data db =
           (case chroma_add [doc] [get_tag_id h tag] (advance (Get [get_tag_id h tag]) db) of
              (Inl e, db2) \<Rightarrow> (Inr (sync_error_msg tag e), db2)
            | (Inr u, db2) \<Rightarrow> (Inr (added_msg tag), db2))"
  using assms found_iff[of "get_tag_id h tag" "entries db"]
  by (simp add: sync_tag_to_chroma_def subscript_def chroma_get_ok stored_ids_def Let_def)

section \<open>Upsert to the index\<close>

lemma reachable_2_iff:
  "reachable 2 db \<longleftrightarrow> next_fault db = None \<and> next_fault (advance c db) = None"
proof (cases "faults db")
  case Nil
  then show ?thesis by (simp add: reachable_def next_fault_def advance_def)
next
  case (Cons f fs)
  then show ?thesis
    by (cases fs) (auto simp: reachable_def next_fault_def advance_def numeral_2_eq_2)
qed

lemma first_fault_1:
  "next_fault db = Some e \<Longrightarrow> find (\<lambda>f. f \<noteq> None) (take 2 (faults db)) = Some (Some e)"
  by (cases "faults db") (auto simp: next_fault_def numeral_2_eq_2)

lemma first_fault_2:
  "next_fault db = None \<Longrightarrow> next_fault (advance c db) = Some e \<Longrightarrow>
   find (\<lambda>f. f \<noteq> None) (take 2 (faults db)) = Some (Some e)"
proof (cases "faults db")
  case Nil
  assume "next_fault (advance c db) = Some e"
  with Nil show ?thesis by (simp add: next_fault_def advance_def)
next
  case (Cons f fs)
  assume "next_fault db = None" "next_fault (advance c db) = Some e"
  with Cons show ?thesis
    by (cases fs) (auto simp: next_fault_def advance_def numeral_2_eq_2)
qed

lemma format_entry_record:
  "tag_data ''tag'' = Some tag \<Longrightarrow> tag_data ''description'' = Some descr \<Longrightarrow>
   \<exists>doc. format_entry tag_data = Inr doc"
  by (simp add: format_entry_def subscript_def)

lemmas store_eval = chroma_get_def chroma_get_all_def chroma_update_def chroma_add_def
  chroma_delete_def get_chroma_db_def begin_call_def next_fault_def advance_def result_of_def
  put_doc_def new_doc_def stored_ids_def reachable_def Let_def

lemma sync_tag_to_chroma_cases:
  assumes tg: "tag_data ''tag'' = Some tag" and ds: "tag_data ''description'' = Some descr"
  shows "\<exists>msg db' doc.
       sync_tag_to_chroma h tag_data db = (Inr msg, db')
     \<and> format_entry tag_data = Inr doc
     \<and> prefix (calls db @ [Get [get_tag_id h tag]]) (calls db')
     \<and> (msg = added_msg tag \<or> msg = updated_msg tag \<or> (\<exists>e. msg = sync_error_msg tag e))
     \<and> (reachable 2 db \<and> get_tag_id h tag \<in> stored_ids db \<longrightarrow>
          msg = updated_msg tag
        \<and> entries db' = put_doc (get_tag_id h tag) doc (entries db)
        \<and> calls db' = calls db @ [Get [get_tag_id h tag], Update [get_tag_id h tag] [doc]])
     \<and> (reachable 2 db \<and> get_tag_id h tag \<notin> stored_ids db \<longrightarrow>
          msg = added_msg tag
        \<and> entries db' = entries db @ [(get_tag_id h tag, doc)]
        \<and> calls db' = calls db @ [Get [get_tag_id h tag], Add [get_tag_id h tag] [doc]])
     \<and> (\<not> reachable 2 db \<longrightarrow>
          (\<exists>e. find (\<lambda>f. f \<noteq> None) (take 2 (faults db)) = Some (Some e) \<and> msg = sync_error_msg tag e)
        \<and> entries db' = entries db)"
proof -
  let ?tid = "get_tag_id h tag"
  let ?db1 = "advance (Get [?tid]) db"
  from format_entry_record[OF tg ds] obtain doc where doc: "format_entry tag_data = Inr doc" ..
  note r2 = reachable_2_iff[of db "Get [?tid]"]
  show ?thesis
  proof (cases "next_fault db")
    case (Some e)
    have "sync_tag_to_chroma h tag_data db = (Inr (sync_error_msg tag e), ?db1)"
      by (rule sync_get_fault[OF tg doc Some])
    then show ?thesis using doc Some first_fault_1[OF Some] r2 by auto
  next
    case None
    show ?thesis
    proof (cases "?tid \<in> stored_ids db")
      case True
      note eq = sync_present[OF tg doc None True]
      show ?thesis
      proof (cases "next_fault ?db1")
        case (Some e)
        have "sync_tag_to_chroma h tag_data db =
                (Inr (sync_error_msg tag e), advance (Update [?tid] [doc]) ?db1)"
          using eq by (simp add: chroma_update_fail[OF Some])
        then show ?thesis using doc Some first_fault_2[OF None Some] r2 by auto
      next
        case n2: None
        have "sync_tag_to_chroma h tag_data db =
                (Inr (updated_msg tag),
                 (advance (Update [?tid] [doc]) ?db1)\<lparr>entries := put_doc ?tid doc (entries db)\<rparr>)"
          using eq by (simp add: chroma_update_ok[OF n2])
        then show ?thesis using doc None n2 True r2 by auto
      qed
    next
      case False
      note eq = sync_absent[OF tg doc None False]
      show ?thesis
      proof (cases "next_fault ?db1")
        case (Some e)
        have "sync_tag_to_chroma h tag_data db =
                (Inr (sync_error_msg tag e), advance (Add [?tid] [doc]) ?db1)"
          using eq by (simp add: chroma_add_fail[OF Some])
        then show ?thesis using doc Some first_fault_2[OF None Some] r2 by auto
      next
        case n2: None
        have nd: "new_doc ?tid doc (entries db) = entries db @ [(?tid, doc)]"
          using False by (simp add: new_doc_def stored_ids_def)
        have "sync_tag_to_chroma h tag_data db =
                (Inr (added_msg tag),
                 (advance (Add [?tid] [doc]) ?db1)\<lparr>entries := entries db @ [(?tid, doc)]\<rparr>)"
          using eq nd by (simp add: chroma_add_ok[OF n2])
        then show ?thesis using doc None n2 False r2 by auto
      qed
    qed
  qed
qed

text \<open>
  C3. For every tag record (a dictionary with \<open>tag\<close> and \<open>description\<close>) and every
  store, \<open>sync_tag_to_chroma\<close> returns a string and raises nothing. The string is
  one of three, which differ from one another whatever the tag: \<open>Added tag '...' to
  ChromaDB\<close>, \<open>Updated tag '...' in ChromaDB\<close>, or \<open>Error syncing tag '...': \<close>
  followed by the text of the failure. The first call to the store is the lookup of the
  derived id. When the store answers the two calls, the document of the id is replaced
  by the formatted record if the id is present (the string is the updated one) and a
  new entry is appended if it is absent (the string is the added one). When one of the
  two calls fails, the failure is caught: the string is the error one with the text of
  the first failure, and the entries are unchanged.
\<close>

theorem sync_tag_to_chroma_upsert:
  assumes tg: "tag_data ''tag'' = Some tag" and ds: "tag_data ''description'' = Some descr"
  shows "let tid = get_tag_id h tag;
             added = ''Added tag '' @ [CHR 0x27] @ tag @ [CHR 0x27] @ '' to ChromaDB'';
             updated = ''Updated tag '' @ [CHR 0x27] @ tag @ [CHR 0x27] @ '' in ChromaDB'';
             failed = (\<lambda>e. ''Error syncing tag '' @ [CHR 0x27] @ tag @ [CHR 0x27] @ '': '' @ e)
         in added \<noteq> updated \<and> (\<forall>e. failed e \<noteq> added \<and> failed e \<noteq> updated)
          \<and> (\<exists>msg db' doc.
               sync_tag_to_chroma h tag_data db = (Inr msg, db')
             \<and> format_entry tag_data = Inr doc
             \<and> prefix (calls db @ [Get [tid]]) (calls db')
             \<and> (msg = added \<or> msg = updated \<or> (\<exists>e. msg = failed e))
             \<and> (reachable 2 db \<and> tid \<in> stored_ids db \<longrightarrow>
                  msg = updated
                \<and> entries db' = put_doc tid doc (entries db)
                \<and> calls db' = calls db @ [Get [tid], Update [tid] [doc]])
             \<and> (reachable 2 db \<and> tid \<notin> stored_ids db \<longrightarrow>
                  msg = added
                \<and> entries db' = entries db @ [(tid, doc)]
                \<and> calls db' = calls db @ [Get [tid], Add [tid] [doc]])
             \<and> (\<not> reachable 2 db \<longrightarrow>
                  (\<exists>e. find (\<lambda>f. f \<noteq> None) (take 2 (faults db)) = Some (Some e) \<and> msg = failed e)
                \<and> entries db' = entries db))"
proof -
  have differ: "''Added tag '' @ [CHR 0x27] @ tag @ [CHR 0x27] @ '' to ChromaDB''
        \<noteq> ''Updated tag '' @ [CHR 0x27] @ tag @ [CHR 0x27] @ '' in ChromaDB''"
    "\<And>e. ''Error syncing tag '' @ [CHR 0x27] @ tag @ [CHR 0x27] @ '': '' @ e
        \<noteq> ''Added tag '' @ [CHR 0x27] @ tag @ [CHR 0x27] @ '' to ChromaDB''"
    "\<And>e. ''Error syncing tag '' @ [CHR 0x27] @ tag @ [CHR 0x27] @ '': '' @ e
        \<noteq> ''Updated tag '' @ [CHR 0x27] @ tag @ [CHR 0x27] @ '' in ChromaDB''"
    by simp_all
  have main: "\<exists>msg db' doc.
       sync_tag_to_chroma h tag_data db = (Inr msg, db')
     \<and> format_entry tag_data = Inr doc
     \<and> prefix (calls db @ [Get [get_tag_id h tag]]) (calls db')
     \<and> (msg = ''Added tag '' @ [CHR 0x27] @ tag @ [CHR 0x27] @ '' to ChromaDB''
        \<or> msg = ''Updated tag '' @ [CHR 0x27] @ tag @ [CHR 0x27] @ '' in ChromaDB''
        \<or> (\<exists>e. msg = ''Error syncing tag '' @ [CHR 0x27] @ tag @ [CHR 0x27] @ '': '' @ e))
     \<and> (reachable 2 db \<and> get_tag_id h tag \<in> stored_ids db \<longrightarrow>
          msg = ''Updated tag '' @ [CHR 0x27] @ tag @ [CHR 0x27] @ '' in ChromaDB''
        \<and> entries db' = put_doc (get_tag_id h tag) doc (entries db)
        \<and> calls db' = calls db @ [Get [get_tag_id h tag], Update [get_tag_id h tag] [doc]])
     \<and> (reachable 2 db \<and> get_tag_id h tag \<notin> stored_ids db \<longrightarrow>
          msg = ''Added tag '' @ [CHR 0x27] @ tag @ [CHR 0x27] @ '' to ChromaDB''
        \<and> entries db' = entries db @ [(get_tag_id h tag, doc)]
        \<and> calls db' = calls db @ [Get [get_tag_id h tag], Add [get_tag_id h tag] [doc]])
     \<and> (\<not> reachable 2 db \<longrightarrow>
          (\<exists>e. find (\<lambda>f. f \<noteq> None) (take 2 (faults db)) = Some (Some e)
              \<and> msg = ''Error syncing tag '' @ [CHR 0x27] @ tag @ [CHR 0x27] @ '': '' @ e)
        \<and> entries db' = entries db)"
    using sync_tag_to_chroma_cases [OF tg ds, of h db]
    unfolding added_msg_def updated_msg_def sync_error_msg_def quoted_def
    by simp
  show ?thesis
    unfolding Let_def using differ main by blast
qed

text \<open>
  Three runs for the record of tag \<open>a\<close>, whose id is \<open>tag_1\<close>: the id present, the id
  absent, and a store that refuses the lookup.
\<close>

theorem sync_tag_to_chroma_upsert_witness:
  "[''tag'' \<mapsto> ''a'', ''description'' \<mapsto> ''d''] ''tag'' = Some ''a''
   \<and> [''tag'' \<mapsto> ''a'', ''description'' \<mapsto> ''d''] ''description'' = Some ''d''
   \<and> sync_tag_to_chroma (\<lambda>s. int (length s)) [''tag'' \<mapsto> ''a'', ''description'' \<mapsto> ''d'']
        \<lparr>entries = [(''tag_1'', ''old'')], faults = [], calls = []\<rparr>
      = (Inr (''Updated tag '' @ [CHR 0x27] @ ''a'' @ [CHR 0x27] @ '' in ChromaDB''),
         \<lparr>entries = [(''tag_1'', ''Tag: a'' @ NL @ ''Description: d'' @ NL @ ''Instruction: '' @ NL @ ''Category: '' @ NL)],
          faults = [],
          calls = [Get [''tag_1''],
                   Update [''tag_1''] [''Tag: a'' @ NL @ ''Description: d'' @ NL @ ''Instruction: '' @ NL @ ''Category: '' @ NL]]\<rparr>)
   \<and> sync_tag_to_chroma (\<lambda>s. int (length s)) [''tag'' \<mapsto> ''a'', ''description'' \<mapsto> ''d'']
        \<lparr>entries = [(''tag_2'', ''y'')], faults = [], calls = []\<rparr>
      = (Inr (''Added tag '' @ [CHR 0x27] @ ''a'' @ [CHR 0x27] @ '' to ChromaDB''),
         \<lparr>entries = [(''tag_2'', ''y''),
                     (''tag_1'', ''Tag: a'' @ NL @ ''Description: d'' @ NL @ ''Instruction: '' @ NL @ ''Category: '' @ NL)],
          faults = [],
          calls = [Get [''tag_1''],
                   Add [''tag_1''] [''Tag: a'' @ NL @ ''Description: d'' @ NL @ ''Instruction: '' @ NL @ ''Category: '' @ NL]]\<rparr>)
   \<and> sync_tag_to_chroma (\<lambda>s. int (length s)) [''tag'' \<mapsto> ''a'', ''description'' \<mapsto> ''d'']
        \<lparr>entries = [(''tag_1'', ''old'')], faults = [Some ''connection refused''], calls = []\<rparr>
      = (Inr (''Error syncing tag '' @ [CHR 0x27] @ ''a'' @ [CHR 0x27] @ '': connection refused''),
         \<lparr>entries = [(''tag_1'', ''old'')], faults = [], calls = [Get [''tag_1'']]\<rparr>)"
proof -
  let ?h = "\<lambda>s::string. int (length s)"
  let ?d = "[''tag'' \<mapsto> ''a'', ''description'' \<mapsto> ''d'']"
  let ?doc = "''Tag: a'' @ NL @ ''Description: d'' @ NL @ ''Instruction: '' @ NL @ ''Category: '' @ NL"
  have h1: "?d ''tag'' = Some ''a''" by simp
  have h2: "?d ''description'' = Some ''d''" by simp
  have up: "sync_tag_to_chroma ?h ?d \<lparr>entries = [(''tag_1'', ''old'')], faults = [], calls = []\<rparr>
      = (Inr (''Updated tag '' @ [CHR 0x27] @ ''a'' @ [CHR 0x27] @ '' in ChromaDB''),
         \<lparr>entries = [(''tag_1'', ?doc)], faults = [],
          calls = [Get [''tag_1''], Update [''tag_1''] [?doc]]\<rparr>)"
    by (simp add: sync_tag_to_chroma_def subscript_def format_entry_def dict_get_def
        get_tag_id_len1 updated_msg_def quoted_def store_eval)
  have ad: "sync_tag_to_chroma ?h ?d \<lparr>entries = [(''tag_2'', ''y'')], faults = [], calls = []\<rparr>
      = (Inr (''Added tag '' @ [CHR 0x27] @ ''a'' @ [CHR 0x27] @ '' to ChromaDB''),
         \<lparr>entries = [(''tag_2'', ''y''), (''tag_1'', ?doc)], faults = [],
          calls = [Get [''tag_1''], Add [''tag_1''] [?doc]]\<rparr>)"
    by (simp add: sync_tag_to_chroma_def subscript_def format_entry_def dict_get_def
        get_tag_id_len1 added_msg_def quoted_def store_eval)
  have er: "sync_tag_to_chroma ?h ?d
        \<lparr>entries = [(''tag_1'', ''old'')], faults = [Some ''connection refused''], calls = []\<rparr>
      = (Inr (''Error syncing tag '' @ [CHR 0x27] @ ''a'' @ [CHR 0x27] @ '': connection refused''),
         \<lparr>entries = [(''tag_1'', ''old'')], faults = [], calls = [Get [''tag_1'']]\<rparr>)"
    by (simp add: sync_tag_to_chroma_def subscript_def format_entry_def dict_get_def
        get_tag_id_len1 sync_error_msg_def quoted_def store_eval)
  show ?thesis
    using h1 h2 up ad er
      sync_tag_to_chroma_upsert [OF h1 h2, of ?h "\<lparr>entries = [(''tag_1'', ''old'')], faults = [], calls = []\<rparr>"]
    by blast
qed

text \<open>
  A dictionary without \<open>tag\<close> or \<open>description\<close> is not a tag record: the subscripts
  before the \<open>try\<close> raise, and the store is not called.
\<close>

lemma sync_tag_to_chroma_malformed:
  "\<not> is_tag_record tag_data \<Longrightarrow> \<exists>k. sync_tag_to_chroma h tag_data db = (Inl (KeyError k), db)"
  by (auto simp: is_tag_record_def sync_tag_to_chroma_def format_entry_def subscript_def Let_def
      split: option.splits)

lemma put_doc_absent: "i \<notin> fst ` set es \<Longrightarrow> put_doc i d es = es"
  by (induction es) (auto simp: put_doc_def)

lemma put_doc_idem: "put_doc i d (put_doc i d es) = put_doc i d es"
  by (induction es) (auto simp: put_doc_def)

lemma put_doc_ids: "map fst (put_doc i d es) = map fst es"
  by (induction es) (auto simp: put_doc_def)

lemma map_of_put_doc: "i \<in> fst ` set es \<Longrightarrow> map_of (put_doc i d es) i = Some d"
  by (induction es) (auto simp: put_doc_def)

lemma map_of_snoc_new: "i \<notin> fst ` set es \<Longrightarrow> map_of (es @ [(i, d)]) i = Some d"
  by (induction es) auto

lemma put_doc_snoc: "put_doc i d (es @ [(i, d)]) = put_doc i d es @ [(i, d)]"
  by (simp add: put_doc_def)

lemma put_doc_id_set: "fst ` set (put_doc i d es) = fst ` set es"
proof -
  have "set (map fst (put_doc i d es)) = set (map fst es)" by (simp only: put_doc_ids)
  then show ?thesis by simp
qed

lemma upsert_entries_present: "i \<in> fst ` set (upsert_entries i d es)"
  by (simp add: upsert_entries_def put_doc_id_set)

lemma put_doc_upsert_entries: "put_doc i d (upsert_entries i d es) = upsert_entries i d es"
  by (simp add: upsert_entries_def put_doc_idem put_doc_snoc put_doc_absent)

lemma map_of_upsert_entries: "map_of (upsert_entries i d es) i = Some d"
proof (cases "i \<in> fst ` set es")
  case True
  then show ?thesis by (simp add: upsert_entries_def map_of_put_doc)
next
  case False
  then show ?thesis using map_of_snoc_new[OF False, of d] by (simp only: upsert_entries_def if_False)
qed

lemma sync_reachable:
  assumes tg: "tag_data ''tag'' = Some tag" and doc: "format_entry tag_data = Inr doc"
    and r: "reachable 2 db"
  shows "entries (snd (sync_tag_to_chroma h tag_data db)) = upsert_entries (get_tag_id h tag) doc (entries db)"
proof -
  let ?tid = "get_tag_id h tag"
  from r reachable_2_iff[of db "Get [?tid]"]
  have n1: "next_fault db = None" and n2: "next_fault (advance (Get [?tid]) db) = None" by auto
  show ?thesis
  proof (cases "?tid \<in> stored_ids db")
    case True
    then show ?thesis
      using sync_present[OF tg doc n1 True]
      by (simp add: chroma_update_ok[OF n2] upsert_entries_def stored_ids_def)
  next
    case False
    then show ?thesis
      using sync_absent[OF tg doc n1 False]
      by (simp add: chroma_add_ok[OF n2] upsert_entries_def stored_ids_def new_doc_def)
  qed
qed

lemma sync_present_entries:
  assumes tg: "tag_data ''tag'' = Some tag" and doc: "format_entry tag_data = Inr doc"
    and p: "get_tag_id h tag \<in> stored_ids db"
  shows "entries (snd (sync_tag_to_chroma h tag_data db)) = entries db
       \<or> entries (snd (sync_tag_to_chroma h tag_data db)) = put_doc (get_tag_id h tag) doc (entries db)"
proof -
  let ?tid = "get_tag_id h tag"
  show ?thesis
  proof (cases "next_fault db")
    case (Some e)
    then show ?thesis using sync_get_fault[OF tg doc Some] by simp
  next
    case None
    note eq = sync_present[OF tg doc None p]
    show ?thesis
    proof (cases "next_fault (advance (Get [?tid]) db)")
      case (Some e)
      then show ?thesis using eq by (simp add: chroma_update_fail[OF Some])
    next
      case n2: None
      then show ?thesis using eq by (simp add: chroma_update_ok[OF n2])
    qed
  qed
qed

text \<open>
  C5. For every tag record and every store, when the first upsert goes through, a
  second upsert of the same record (whether its calls go through or fail) leaves the
  entries of the store as they were after the first: the document of the derived id
  is the formatted record after the first call and after the second.
\<close>

theorem sync_tag_to_chroma_idempotent:
  assumes tg: "tag_data ''tag'' = Some tag" and ds: "tag_data ''description'' = Some descr"
    and r: "reachable 2 db"
    and first: "sync_tag_to_chroma h tag_data db = (r1, db1)"
    and second: "sync_tag_to_chroma h tag_data db1 = (r2, db2)"
  shows "\<exists>doc. format_entry tag_data = Inr doc
     \<and> map_of (entries db1) (get_tag_id h tag) = Some doc
     \<and> map_of (entries db2) (get_tag_id h tag) = Some doc
     \<and> entries db2 = entries db1"
proof -
  let ?tid = "get_tag_id h tag"
  from format_entry_record[OF tg ds] obtain doc where doc: "format_entry tag_data = Inr doc" ..
  have e1: "entries db1 = upsert_entries ?tid doc (entries db)"
    using sync_reachable[OF tg doc r, of h] first by simp
  then have p1: "?tid \<in> stored_ids db1"
    by (simp add: stored_ids_def upsert_entries_present)
  have "put_doc ?tid doc (entries db1) = entries db1"
    using e1 by (simp add: put_doc_upsert_entries)
  with sync_present_entries[OF tg doc p1] second have e2: "entries db2 = entries db1"
    by auto
  show ?thesis using doc e1 e2 by (auto simp: map_of_upsert_entries)
qed


theorem sync_tag_to_chroma_idempotent_witness:
  "[''tag'' \<mapsto> ''a'', ''description'' \<mapsto> ''d''] ''tag'' = Some ''a''
   \<and> [''tag'' \<mapsto> ''a'', ''description'' \<mapsto> ''d''] ''description'' = Some ''d''
   \<and> reachable 2 \<lparr>entries = [(''tag_2'', ''y'')], faults = [], calls = []\<rparr>
   \<and> sync_tag_to_chroma (\<lambda>s. int (length s)) [''tag'' \<mapsto> ''a'', ''description'' \<mapsto> ''d'']
        \<lparr>entries = [(''tag_2'', ''y'')], faults = [], calls = []\<rparr>
      = (Inr (''Added tag '' @ [CHR 0x27] @ ''a'' @ [CHR 0x27] @ '' to ChromaDB''),
         \<lparr>entries = [(''tag_2'', ''y''),
                     (''tag_1'', ''Tag: a'' @ NL @ ''Description: d'' @ NL @ ''Instruction: '' @ NL @ ''Category: '' @ NL)],
          faults = [],
          calls = [Get [''tag_1''],
                   Add [''tag_1''] [''Tag: a'' @ NL @ ''Description: d'' @ NL @ ''Instruction: '' @ NL @ ''Category: '' @ NL]]\<rparr>)
   \<and> sync_tag_to_chroma (\<lambda>s. int (length s)) [''tag'' \<mapsto> ''a'', ''description'' \<mapsto> ''d'']
        \<lparr>entries = [(''tag_2'', ''y''),
                    (''tag_1'', ''Tag: a'' @ NL @ ''Description: d'' @ NL @ ''Instruction: '' @ NL @ ''Category: '' @ NL)],
         faults = [],
         calls = [Get [''tag_1''],
                  Add [''tag_1''] [''Tag: a'' @ NL @ ''Description: d'' @ NL @ ''Instruction: '' @ NL @ ''Category: '' @ NL]]\<rparr>
      = (Inr (''Updated tag '' @ [CHR 0x27] @ ''a'' @ [CHR 0x27] @ '' in ChromaDB''),
         \<lparr>entries = [(''tag_2'', ''y''),
                     (''tag_1'', ''Tag: a'' @ NL @ ''Description: d'' @ NL @ ''Instruction: '' @ NL @ ''Category: '' @ NL)],
          faults = [],
          calls = [Get [''tag_1''],
                   Add [''tag_1''] [''Tag: a'' @ NL @ ''Description: d'' @ NL @ ''Instruction: '' @ NL @ ''Category: '' @ NL],
                   Get [''tag_1''],
                   Update [''tag_1''] [''Tag: a'' @ NL @ ''Description: d'' @ NL @ ''Instruction: '' @ NL @ ''Category: '' @ NL]]\<rparr>)
   \<and> map_of [(''tag_2'', ''y''),
              (''tag_1'', ''Tag: a'' @ NL @ ''Description: d'' @ NL @ ''Instruction: '' @ NL @ ''Category: '' @ NL)]
        (get_tag_id (\<lambda>s. int (length s)) ''a'')
      = Some (''Tag: a'' @ NL @ ''Description: d'' @ NL @ ''Instruction: '' @ NL @ ''Category: '' @ NL)"
proof -
  let ?h = "\<lambda>s::string. int (length s)"
  let ?d = "[''tag'' \<mapsto> ''a'', ''description'' \<mapsto> ''d'']"
  let ?doc = "''Tag: a'' @ NL @ ''Description: d'' @ NL @ ''Instruction: '' @ NL @ ''Category: '' @ NL"
  let ?db = "\<lparr>entries = [(''tag_2'', ''y'')], faults = [], calls = []\<rparr>"
  let ?db1 = "\<lparr>entries = [(''tag_2'', ''y''), (''tag_1'', ?doc)], faults = [],
               calls = [Get [''tag_1''], Add [''tag_1''] [?doc]]\<rparr>"
  let ?db2 = "\<lparr>entries = [(''tag_2'', ''y''), (''tag_1'', ?doc)], faults = [],
               calls = [Get [''tag_1''], Add [''tag_1''] [?doc], Get [''tag_1''], Update [''tag_1''] [?doc]]\<rparr>"
  have h1: "?d ''tag'' = Some ''a''" by simp
  have h2: "?d ''description'' = Some ''d''" by simp
  have r: "reachable 2 ?db" by (simp add: reachable_def)
  have f1: "sync_tag_to_chroma ?h ?d ?db
              = (Inr (''Added tag '' @ [CHR 0x27] @ ''a'' @ [CHR 0x27] @ '' to ChromaDB''), ?db1)"
    by (simp add: sync_tag_to_chroma_def subscript_def format_entry_def dict_get_def
        get_tag_id_len1 added_msg_def quoted_def store_eval)
  have f2: "sync_tag_to_chroma ?h ?d ?db1
              = (Inr (''Updated tag '' @ [CHR 0x27] @ ''a'' @ [CHR 0x27] @ '' in ChromaDB''), ?db2)"
    by (simp add: sync_tag_to_chroma_def subscript_def format_entry_def dict_get_def
        get_tag_id_len1 updated_msg_def quoted_def store_eval)
  have fe: "format_entry ?d = Inr ?doc"
    by (simp add: format_entry_def subscript_def dict_get_def)
  have m: "map_of [(''tag_2'', ''y''), (''tag_1'', ?doc)] (get_tag_id ?h ''a'') = Some ?doc"
    using fe sync_tag_to_chroma_idempotent [OF h1 h2 r f1 f2] by simp
  from h1 h2 r f1 f2 m show ?thesis by blast
qed

section \<open>Remove from the index\<close>

lemma remove_ok:
  "next_fault db = None \<Longrightarrow>
   remove_tag_from_chroma h tag_name db =
     (removed_msg tag_name,
      (advance (Delete [get_tag_id h tag_name]) db)
        \<lparr>entries := filter (\<lambda>(i, d). i \<noteq> get_tag_id h tag_name) (entries db)\<rparr>)"
  by (simp add: remove_tag_from_chroma_def chroma_delete_ok Let_def)

lemma remove_fail:
  "next_fault db = Some e \<Longrightarrow>
   remove_tag_from_chroma h tag_name db =
     (remove_error_msg tag_name e, advance (Delete [get_tag_id h tag_name]) db)"
  by (simp add: remove_tag_from_chroma_def chroma_delete_fail Let_def)

lemma filter_absent: "x \<notin> fst ` set es \<Longrightarrow> filter (\<lambda>(i, d). i \<noteq> x) es = es"
  by (induction es) auto

lemma remove_effect:
  assumes "remove_tag_from_chroma h tag_name db = (msg, db')"
  shows "calls db' = calls db @ [Delete [get_tag_id h tag_name]]
     \<and> faults db' = tl (faults db)
     \<and> (next_fault db = None \<longrightarrow>
          msg = removed_msg tag_name
        \<and> entries db' = filter (\<lambda>(i, d). i \<noteq> get_tag_id h tag_name) (entries db))
     \<and> (\<forall>e. next_fault db = Some e \<longrightarrow> msg = remove_error_msg tag_name e \<and> entries db' = entries db)"
proof (cases "next_fault db")
  case None
  then show ?thesis using assms remove_ok[OF None, of h tag_name] by auto
next
  case (Some e)
  then show ?thesis using assms remove_fail[OF Some, of h tag_name] by auto
qed

text \<open>
  C6. For every tag string and every store, \<open>remove_tag_from_chroma\<close> issues one
  delete of the derived id and returns a string. When the store answers, the string is
  the removed one whether or not the id was present, and the id is absent afterwards;
  a second removal of the same tag issues the same delete, leaves the entries as they
  are when the id is absent, and returns the removed string again when the store
  answers. A failure of the store is returned as the error string.
\<close>

theorem remove_tag_from_chroma_idempotent:
  assumes first: "remove_tag_from_chroma h tag_name db = (msg1, db1)"
    and second: "remove_tag_from_chroma h tag_name db1 = (msg2, db2)"
  shows "calls db1 = calls db @ [Delete [get_tag_id h tag_name]]
     \<and> calls db2 = calls db1 @ [Delete [get_tag_id h tag_name]]
     \<and> (next_fault db = None \<longrightarrow>
          msg1 = removed_msg tag_name \<and> get_tag_id h tag_name \<notin> stored_ids db1)
     \<and> (get_tag_id h tag_name \<notin> stored_ids db1 \<longrightarrow> entries db2 = entries db1)
     \<and> (next_fault db1 = None \<longrightarrow> msg2 = removed_msg tag_name)
     \<and> (\<forall>e. next_fault db1 = Some e \<longrightarrow> msg2 = remove_error_msg tag_name e \<and> entries db2 = entries db1)"
proof -
  let ?tid = "get_tag_id h tag_name"
  note a = remove_effect[OF first] and b = remove_effect[OF second]
  have gone: "next_fault db = None \<Longrightarrow> ?tid \<notin> stored_ids db1"
    using a by (auto simp: stored_ids_def)
  have same: "?tid \<notin> stored_ids db1 \<Longrightarrow> entries db2 = entries db1"
  proof (cases "next_fault db1")
    case None
    assume "?tid \<notin> stored_ids db1"
    then show ?thesis using b None by (simp add: filter_absent stored_ids_def)
  next
    case (Some e)
    then show ?thesis using b by simp
  qed
  show ?thesis using a b gone same by blast
qed

theorem remove_tag_from_chroma_idempotent_witness:
  "remove_tag_from_chroma (\<lambda>s. int (length s)) ''a''
       \<lparr>entries = [(''tag_1'', ''x''), (''tag_2'', ''y'')], faults = [], calls = []\<rparr>
     = (removed_msg ''a'', \<lparr>entries = [(''tag_2'', ''y'')], faults = [], calls = [Delete [''tag_1'']]\<rparr>)
   \<and> remove_tag_from_chroma (\<lambda>s. int (length s)) ''a''
       \<lparr>entries = [(''tag_2'', ''y'')], faults = [], calls = [Delete [''tag_1'']]\<rparr>
     = (removed_msg ''a'',
        \<lparr>entries = [(''tag_2'', ''y'')], faults = [], calls = [Delete [''tag_1''], Delete [''tag_1'']]\<rparr>)"
proof -
  let ?h = "\<lambda>s::string. int (length s)"
  let ?db = "\<lparr>entries = [(''tag_1'', ''x''), (''tag_2'', ''y'')], faults = [], calls = []\<rparr>"
  let ?db1 = "\<lparr>entries = [(''tag_2'', ''y'')], faults = [], calls = [Delete [''tag_1'']]\<rparr>"
  let ?db2 = "\<lparr>entries = [(''tag_2'', ''y'')], faults = [], calls = [Delete [''tag_1''], Delete [''tag_1'']]\<rparr>"
  have f1: "remove_tag_from_chroma ?h ''a'' ?db = (removed_msg ''a'', ?db1)"
    by (simp add: remove_tag_from_chroma_def get_tag_id_len1 store_eval)
  have f2: "remove_tag_from_chroma ?h ''a'' ?db1 = (removed_msg ''a'', ?db2)"
    by (simp add: remove_tag_from_chroma_def get_tag_id_len1 store_eval)
  show ?thesis
    using f1 f2 remove_tag_from_chroma_idempotent [OF f1 f2] by blast
qed

section \<open>Orphan reconciliation\<close>

lemma expected_ids_eq:
  "list_all has_tag tags_data \<Longrightarrow> expected_ids h tags_data = Inr (get_tag_id h ` tag_names tags_data)"
proof (induction tags_data)
  case Nil
  then show ?case by (simp add: tag_names_Nil)
next
  case (Cons d ds)
  from Cons.prems have hd: "has_tag d" and ds: "list_all has_tag ds" by simp_all
  from hd obtain t where t: "d ''tag'' = Some t" by (auto simp: has_tag_def)
  show ?case using t Cons.IH[OF ds] by (simp add: subscript_def tag_names_Cons)
qed

lemma keep_expected_simp:
  "filter (\<lambda>(i, d). i \<in> fst ` set es \<longrightarrow> i \<in> E) es = filter (\<lambda>(i, d). i \<in> E) es"
  by (rule filter_cong) force+

lemma no_orphans:
  "filter (\<lambda>i. i \<notin> E) (remdups (map fst es)) = [] \<Longrightarrow> filter (\<lambda>(i, d). i \<in> E) es = es"
  by (auto simp: filter_empty_conv filter_id_conv)

lemma ids_of_filter: "fst ` set (filter (\<lambda>(i, d). i \<in> E) es) = E \<inter> fst ` set es"
  by (auto simp: image_iff)

text \<open>
  C1. For every list of records that have a \<open>tag\<close> and every store that answers the
  calls, after \<open>clean_orphaned_chroma_entries\<close> the ids of the store are \<open>E \<inter> A\<close>,
  with \<open>E\<close> the ids derived from the tags and \<open>A\<close> the ids that were present. The
  entries with an id in \<open>E\<close> are the ones that were there, unchanged and in their
  order. The ids in \<open>A\<close> and not in \<open>E\<close> are deleted by a single delete call, which
  is not issued when there is none.
\<close>

theorem clean_orphaned_removes_difference:
  assumes tags: "list_all has_tag tags_data" and r: "reachable 2 store"
  shows "\<exists>msg store' orphaned.
       clean_orphaned_chroma_entries h (Some store) tags_data = (Inr msg, Some store')
     \<and> stored_ids store' = get_tag_id h ` tag_names tags_data \<inter> stored_ids store
     \<and> entries store' = filter (\<lambda>(i, d). i \<in> get_tag_id h ` tag_names tags_data) (entries store)
     \<and> set orphaned = stored_ids store - get_tag_id h ` tag_names tags_data
     \<and> distinct orphaned
     \<and> calls store' = calls store @ GetAll # (if orphaned = [] then [] else [Delete orphaned])
     \<and> msg = (if orphaned = [] then ''No orphaned entries found''
               else removed_orphans_msg (length orphaned))"
proof -
  let ?E = "get_tag_id h ` tag_names tags_data"
  let ?orph = "filter (\<lambda>i. i \<notin> ?E) (remdups (map fst (entries store)))"
  let ?s1 = "advance GetAll store"
  from r reachable_2_iff[of store GetAll]
  have n1: "next_fault store = None" and n2: "next_fault ?s1 = None" by auto
  have o: "set ?orph = stored_ids store - ?E" "distinct ?orph"
    by (auto simp: stored_ids_def)
  show ?thesis
  proof (cases "?orph = []")
    case True
    have "clean_orphaned_chroma_entries h (Some store) tags_data
            = (Inr ''No orphaned entries found'', Some ?s1)"
      using True
      by (simp add: clean_orphaned_chroma_entries_def expected_ids_eq[OF tags]
          chroma_get_all_ok[OF n1] Let_def)
    moreover have "entries ?s1 = filter (\<lambda>(i, d). i \<in> ?E) (entries store)"
      using no_orphans[OF True] by simp
    moreover have "stored_ids ?s1 = ?E \<inter> stored_ids store"
      using o(1) True by auto
    ultimately show ?thesis using o True
      by (intro exI[of _ "''No orphaned entries found''"] exI[of _ ?s1] exI[of _ ?orph]) simp
  next
    case False
    let ?s2 = "(advance (Delete ?orph) ?s1)\<lparr>entries := filter (\<lambda>(i, d). i \<in> ?E) (entries store)\<rparr>"
    have "clean_orphaned_chroma_entries h (Some store) tags_data
            = (Inr (removed_orphans_msg (length ?orph)), Some ?s2)"
      using False
      by (simp add: clean_orphaned_chroma_entries_def expected_ids_eq[OF tags]
          chroma_get_all_ok[OF n1] chroma_delete_ok[OF n2] Let_def keep_expected_simp)
    moreover have "stored_ids ?s2 = ?E \<inter> stored_ids store"
      using ids_of_filter[of ?E "entries store"] by (simp add: stored_ids_def del: set_filter)
    ultimately show ?thesis using o False
      by (intro exI[of _ "removed_orphans_msg (length ?orph)"] exI[of _ ?s2] exI[of _ ?orph]) simp
  qed
qed


theorem clean_orphaned_removes_difference_witness:
  "list_all has_tag [[''tag'' \<mapsto> ''a''], [''tag'' \<mapsto> ''bb'']]
   \<and> reachable 2 \<lparr>entries = [(''tag_1'', ''x''), (''tag_3'', ''z''), (''tag_2'', ''y'')], faults = [], calls = []\<rparr>
   \<and> clean_orphaned_chroma_entries (\<lambda>s. int (length s))
        (Some \<lparr>entries = [(''tag_1'', ''x''), (''tag_3'', ''z''), (''tag_2'', ''y'')], faults = [], calls = []\<rparr>)
        [[''tag'' \<mapsto> ''a''], [''tag'' \<mapsto> ''bb'']]
      = (Inr ''Removed 1 orphaned entries from ChromaDB'',
         Some \<lparr>entries = [(''tag_1'', ''x''), (''tag_2'', ''y'')], faults = [],
               calls = [GetAll, Delete [''tag_3'']]\<rparr>)"
proof -
  let ?h = "\<lambda>s::string. int (length s)"
  let ?T = "[[''tag'' \<mapsto> ''a''], [''tag'' \<mapsto> ''bb'']]"
  let ?S = "\<lparr>entries = [(''tag_1'', ''x''), (''tag_3'', ''z''), (''tag_2'', ''y'')], faults = [], calls = []\<rparr>"
  have h: "list_all has_tag ?T" by (simp add: has_tag_def)
  have r: "reachable 2 ?S" by (simp add: reachable_def)
  have ev: "clean_orphaned_chroma_entries ?h (Some ?S) ?T
      = (Inr ''Removed 1 orphaned entries from ChromaDB'',
         Some \<lparr>entries = [(''tag_1'', ''x''), (''tag_2'', ''y'')], faults = [],
               calls = [GetAll, Delete [''tag_3'']]\<rparr>)"
    by (simp add: clean_orphaned_chroma_entries_def subscript_def get_tag_id_len1 get_tag_id_len2
        removed_orphans_msg_def str_int_def str_nat.simps digit_char_def store_eval)
  show ?thesis
    using h r ev clean_orphaned_removes_difference [OF h r, of ?h] by blast
qed

section \<open>Content search\<close>

lemma search_loop_eq:
  "search_loop lower tag_name (result_of (pre @ es)) (length pre) (map snd es) acc =
     Inr (acc @ map (as_match tag_name) (filter (\<lambda>e. sublist (lower tag_name) (lower (snd e))) es))"
proof (induction es arbitrary: pre acc)
  case Nil
  then show ?case by simp
next
  case (Cons e es)
  have split: "pre @ e # es = (pre @ [e]) @ es" by simp
  have len: "Suc (length pre) = length (pre @ [e])" by simp
  have nth: "map fst (pre @ e # es) ! length pre = fst e"
    by (simp add: nth_append)
  show ?case
    using Cons.IH[of "pre @ [e]"] nth
    by (simp add: as_match_def del: append_assoc map_append) (simp add: as_match_def)
qed

lemma get_all_documents_ok:
  assumes r: "reachable 2 store"
  shows "get_all_chroma_documents store =
           (Some (result_of (entries store)), advance GetAll (advance Open store))"
proof -
  from r reachable_2_iff[of store Open]
  have n1: "next_fault store = None" and n2: "next_fault (advance Open store) = None" by auto
  show ?thesis
    by (simp add: get_all_chroma_documents_def get_chroma_db_ok[OF n1] chroma_get_all_ok[OF n2])
qed

lemma has_tag_header_contained:
  "has_tag_header tag_name doc \<Longrightarrow> sublist (''Tag: '' @ tag_name) doc"
proof -
  assume "has_tag_header tag_name doc"
  then have "doc = (''Tag: '' @ tag_name) @ dropWhile (\<lambda>c. c \<noteq> CHR 0x0A) doc"
    using takeWhile_dropWhile_id[of "\<lambda>c. c \<noteq> CHR 0x0A" doc]
    by (simp add: has_tag_header_def)
  then have "prefix (''Tag: '' @ tag_name) doc" by (metis prefixI)
  then show ?thesis by (rule prefix_imp_sublist)
qed

text \<open>
  C7, as stated, at a store that holds the document of the longer tag \<open>foobar\<close> and a
  document of tag \<open>bar\<close> whose description mentions \<open>Tag: foo\<close>: the search for
  \<open>foo\<close> flags both, and neither has the tag header formatted for \<open>foo\<close>.
\<close>

theorem search_flags_other_headers:
  "fst (search_tag_in_chroma (map (\<lambda>c. if c = CHR ''T'' then CHR ''t'' else c)) ''foo''
        \<lparr>entries = [(''tag_6'', ''Tag: foobar'' @ NL @ ''Description: d'' @ NL),
                    (''tag_3'', ''Tag: bar'' @ NL @ ''Description: see Tag: foo'' @ NL)],
         faults = [], calls = []\<rparr>)
     = [\<lparr>match_id = ''tag_6'', document = ''Tag: foobar'' @ NL @ ''Description: d'' @ NL,
         exact_match = True\<rparr>,
        \<lparr>match_id = ''tag_3'', document = ''Tag: bar'' @ NL @ ''Description: see Tag: foo'' @ NL,
         exact_match = True\<rparr>]
   \<and> \<not> has_tag_header ''foo'' (''Tag: foobar'' @ NL @ ''Description: d'' @ NL)
   \<and> \<not> has_tag_header ''foo'' (''Tag: bar'' @ NL @ ''Description: see Tag: foo'' @ NL)"
  by (simp add: search_tag_in_chroma_def get_all_chroma_documents_def store_eval
      sublist_Cons_right NL_def has_tag_header_def)

text \<open>
  C7, amended. For every query and every store that answers the calls,
  \<open>search_tag_in_chroma\<close> returns, in the order of the store, one match for each
  document whose lowercased text contains the lowercased query, and none for the
  others. A match carries the id and the text of its document, and a flag that is true
  if and only if the text of the document contains \<open>Tag: \<close> followed by the query,
  character for character (not lowercased), anywhere in it. The flag is therefore true
  of every document that has the tag header formatted for the query; it is true of
  other documents too.
\<close>

theorem search_tag_in_chroma_scans_all:
  assumes r: "reachable 2 store"
  shows "search_tag_in_chroma lower tag_name store =
           (map (as_match tag_name)
              (filter (\<lambda>e. sublist (lower tag_name) (lower (snd e))) (entries store)),
            advance GetAll (advance Open store))
       \<and> (\<forall>e. match_id (as_match tag_name e) = fst e \<and> document (as_match tag_name e) = snd e
              \<and> exact_match (as_match tag_name e) = sublist (''Tag: '' @ tag_name) (snd e))
       \<and> (\<forall>e. has_tag_header tag_name (snd e) \<longrightarrow> exact_match (as_match tag_name e))"
proof -
  have "search_tag_in_chroma lower tag_name store =
           (map (as_match tag_name)
              (filter (\<lambda>e. sublist (lower tag_name) (lower (snd e))) (entries store)),
            advance GetAll (advance Open store))"
    using search_loop_eq[of lower tag_name "[]" "entries store" "[]"]
    by (simp add: search_tag_in_chroma_def get_all_documents_ok[OF r])
  moreover have "has_tag_header tag_name d \<longrightarrow> sublist (''Tag: '' @ tag_name) d" for d
    using has_tag_header_contained[of tag_name d] by blast
  ultimately show ?thesis
    by (simp add: as_match_def)
qed

theorem search_tag_in_chroma_scans_all_witness:
  "reachable 2 \<lparr>entries = [(''tag_3'', ''Tag: foo'' @ NL @ ''Description: d'' @ NL),
                           (''tag_6'', ''a Foo b''), (''tag_9'', ''bar'')],
                faults = [], calls = []\<rparr>
   \<and> fst (search_tag_in_chroma (map (\<lambda>c. if c = CHR ''F'' then CHR ''f'' else c)) ''foo''
        \<lparr>entries = [(''tag_3'', ''Tag: foo'' @ NL @ ''Description: d'' @ NL),
                    (''tag_6'', ''a Foo b''), (''tag_9'', ''bar'')],
         faults = [], calls = []\<rparr>)
      = [\<lparr>match_id = ''tag_3'', document = ''Tag: foo'' @ NL @ ''Description: d'' @ NL,
          exact_match = True\<rparr>,
         \<lparr>match_id = ''tag_6'', document = ''a Foo b'', exact_match = False\<rparr>]
   \<and> has_tag_header ''foo'' (''Tag: foo'' @ NL @ ''Description: d'' @ NL)"
proof -
  let ?S = "\<lparr>entries = [(''tag_3'', ''Tag: foo'' @ NL @ ''Description: d'' @ NL),
                        (''tag_6'', ''a Foo b''), (''tag_9'', ''bar'')],
             faults = [], calls = []\<rparr>"
  have r: "reachable 2 ?S" by (simp add: reachable_def)
  have hd: "has_tag_header ''foo'' (''Tag: foo'' @ NL @ ''Description: d'' @ NL)"
    by (simp add: has_tag_header_def NL_def)
  show ?thesis
    using r hd search_tag_in_chroma_scans_all [OF r, of "map (\<lambda>c. if c = CHR ''F'' then CHR ''f'' else c)" "''foo''"]
    by (simp add: as_match_def sublist_Cons_right NL_def)
qed

end
